theory Spec2Isabelle
  imports Main "HOL-Library.Word"
begin

section \<open>JavaScript values\<close>

text \<open>
  The writer of \<^verbatim>\<open>lib/utils/staticwriter.js\<close> holds a Node \<^verbatim>\<open>Buffer\<close> (a
  fixed-length array of unsigned bytes) and a cursor. Numbers are modelled as
  \<open>int\<close> (the integers a JavaScript Number represents exactly), a field that
  \<^verbatim>\<open>destroy\<close> sets to \<^verbatim>\<open>null\<close> as \<open>None\<close>, and an exception as a value of
  \<open>error\<close> returned together with the state the writer has when it is thrown.
\<close>

type_synonym byte = "8 word"

datatype error = AssertionError "string option" | TypeError | RangeError

text \<open>\<^verbatim>\<open>ToNumber\<close> on a number-or-null (\<^verbatim>\<open>null + 5 === 5\<close>), \<^verbatim>\<open>ToUint32\<close> and the
  unsigned shift \<^verbatim>\<open>x >>> k\<close>, on integers.\<close>

definition ToNumber :: "int option \<Rightarrow> int" where
  "ToNumber v = (case v of None \<Rightarrow> 0 | Some n \<Rightarrow> n)"

definition ToUint32 :: "int \<Rightarrow> int" where
  "ToUint32 n = n mod 2 ^ 32"

definition ursh :: "int \<Rightarrow> nat \<Rightarrow> int" where
  "ursh x k = ToUint32 x div 2 ^ k"

section \<open>Node's Buffer primitives\<close>

text \<open>\<^verbatim>\<open>buf[i] = v\<close> on a \<^verbatim>\<open>Uint8Array\<close>: the value is reduced modulo 256; a store
  at an index outside the array is ignored.\<close>

definition put :: "byte list \<Rightarrow> int \<Rightarrow> int \<Rightarrow> byte list" where
  "put buf i v = (if 0 \<le> i \<and> i < int (length buf) then buf[nat i := word_of_int v] else buf)"

text \<open>
  The integer writers, called by the source with \<^verbatim>\<open>noAssert = true\<close>: no range
  check on the value or on the offset, the offset coerced with \<^verbatim>\<open>>>> 0\<close>, the
  bytes stored one by one, and \<^verbatim>\<open>offset + width\<close> returned. The signed writers
  store the same bytes (two's complement).
\<close>

definition Buffer_writeUInt8 :: "byte list \<Rightarrow> int \<Rightarrow> int \<Rightarrow> byte list \<times> int" where
  "Buffer_writeUInt8 buf v offset =
     (let off = ursh offset 0 in (put buf off v, off + 1))"

definition Buffer_writeUInt16LE :: "byte list \<Rightarrow> int \<Rightarrow> int \<Rightarrow> byte list \<times> int" where
  "Buffer_writeUInt16LE buf v offset =
     (let off = ursh offset 0;
          b0 = put buf off v;
          b1 = put b0 (off + 1) (ursh v 8)
      in (b1, off + 2))"

definition Buffer_writeUInt16BE :: "byte list \<Rightarrow> int \<Rightarrow> int \<Rightarrow> byte list \<times> int" where
  "Buffer_writeUInt16BE buf v offset =
     (let off = ursh offset 0;
          b0 = put buf off (ursh v 8);
          b1 = put b0 (off + 1) v
      in (b1, off + 2))"

definition Buffer_writeUInt32LE :: "byte list \<Rightarrow> int \<Rightarrow> int \<Rightarrow> byte list \<times> int" where
  "Buffer_writeUInt32LE buf v offset =
     (let off = ursh offset 0;
          b3 = put buf (off + 3) (ursh v 24);
          b2 = put b3 (off + 2) (ursh v 16);
          b1 = put b2 (off + 1) (ursh v 8);
          b0 = put b1 off v
      in (b0, off + 4))"

definition Buffer_writeUInt32BE :: "byte list \<Rightarrow> int \<Rightarrow> int \<Rightarrow> byte list \<times> int" where
  "Buffer_writeUInt32BE buf v offset =
     (let off = ursh offset 0;
          b0 = put buf off (ursh v 24);
          b1 = put b0 (off + 1) (ursh v 16);
          b2 = put b1 (off + 2) (ursh v 8);
          b3 = put b2 (off + 3) v
      in (b3, off + 4))"

definition Buffer_writeInt8 :: "byte list \<Rightarrow> int \<Rightarrow> int \<Rightarrow> byte list \<times> int" where
  "Buffer_writeInt8 buf v offset =
     (let off = ursh offset 0 in (put buf off v, off + 1))"

definition Buffer_writeInt16LE :: "byte list \<Rightarrow> int \<Rightarrow> int \<Rightarrow> byte list \<times> int" where
  "Buffer_writeInt16LE buf v offset =
     (let off = ursh offset 0;
          b0 = put buf off v;
          b1 = put b0 (off + 1) (ursh v 8)
      in (b1, off + 2))"

definition Buffer_writeInt16BE :: "byte list \<Rightarrow> int \<Rightarrow> int \<Rightarrow> byte list \<times> int" where
  "Buffer_writeInt16BE buf v offset =
     (let off = ursh offset 0;
          b0 = put buf off (ursh v 8);
          b1 = put b0 (off + 1) v
      in (b1, off + 2))"

definition Buffer_writeInt32LE :: "byte list \<Rightarrow> int \<Rightarrow> int \<Rightarrow> byte list \<times> int" where
  "Buffer_writeInt32LE buf v offset =
     (let off = ursh offset 0;
          b0 = put buf off v;
          b1 = put b0 (off + 1) (ursh v 8);
          b2 = put b1 (off + 2) (ursh v 16);
          b3 = put b2 (off + 3) (ursh v 24)
      in (b3, off + 4))"

definition Buffer_writeInt32BE :: "byte list \<Rightarrow> int \<Rightarrow> int \<Rightarrow> byte list \<times> int" where
  "Buffer_writeInt32BE buf v offset =
     (let off = ursh offset 0;
          b0 = put buf off (ursh v 24);
          b1 = put b0 (off + 1) (ursh v 16);
          b2 = put b1 (off + 2) (ursh v 8);
          b3 = put b2 (off + 3) v
      in (b3, off + 4))"

text \<open>
  \<^verbatim>\<open>source.copy(target, targetStart, sourceStart, sourceEnd)\<close>: a negative index
  is a \<^verbatim>\<open>RangeError\<close>; nothing is copied when \<open>targetStart\<close> is at or past the end
  of the target; otherwise the bytes that fit are copied and the rest dropped.
\<close>

definition Buffer_copy :: "byte list \<Rightarrow> byte list \<Rightarrow> int \<Rightarrow> int \<Rightarrow> int \<Rightarrow> error + byte list" where
  "Buffer_copy src target targetStart sourceStart sourceEnd =
     (if targetStart < 0 \<or> sourceStart < 0 \<or> sourceEnd < 0 then Inl RangeError
      else if int (length target) \<le> targetStart \<or> sourceEnd \<le> sourceStart then Inr target
      else if int (length src) < sourceStart then Inl RangeError
      else
        let n = min (min (sourceEnd - sourceStart) (int (length target) - targetStart))
                    (int (length src) - sourceStart);
            chunk = take (nat n) (drop (nat sourceStart) src)
        in Inr (take (nat targetStart) target @ chunk
                @ drop (nat targetStart + length chunk) target))"

text \<open>\<^verbatim>\<open>buf.slice(0, end)\<close>: a negative \<open>end\<close> counts from the end of the buffer, an
  \<open>end\<close> past it is clamped.\<close>

definition Buffer_slice0 :: "byte list \<Rightarrow> int \<Rightarrow> byte list" where
  "Buffer_slice0 buf e =
     (let len = int (length buf);
          e' = (if e < 0 then max 0 (e + len) else if len \<le> e then len else e)
      in take (nat e') buf)"

text \<open>
  \<^verbatim>\<open>buf.write(string, offset, 'hex')\<close>: the offset is coerced with \<^verbatim>\<open>>>> 0\<close>; an
  offset past the end of the buffer is a \<^verbatim>\<open>RangeError\<close> and a string of odd
  length a \<^verbatim>\<open>TypeError\<close>; each pair of hexadecimal digits gives one byte, in the
  order of the string, until the buffer is full or a character is not a digit.
\<close>

definition unhex :: "char \<Rightarrow> nat option" where
  "unhex c =
     (let n = of_char c :: nat in
      if 48 \<le> n \<and> n \<le> 57 then Some (n - 48)
      else if 97 \<le> n \<and> n \<le> 102 then Some (n - 87)
      else if 65 \<le> n \<and> n \<le> 70 then Some (n - 55)
      else None)"

fun hex_decode :: "nat \<Rightarrow> string \<Rightarrow> byte list" where
  "hex_decode (Suc n) (a # b # rest) =
     (case (unhex a, unhex b) of
        (Some x, Some y) \<Rightarrow> of_nat (16 * x + y) # hex_decode n rest
      | _ \<Rightarrow> [])"
| "hex_decode _ _ = []"

definition Buffer_write_hex :: "byte list \<Rightarrow> string \<Rightarrow> int \<Rightarrow> error + byte list" where
  "Buffer_write_hex buf str offset =
     (let off = ursh offset 0;
          remaining = int (length buf) - off
      in if str \<noteq> [] \<and> remaining < 0 then Inl RangeError
         else if odd (length str) then Inl TypeError
         else let bs = hex_decode (nat remaining) str
              in Inr (take (nat off) buf @ bs @ drop (nat off + length bs) buf))"

section \<open>Byte sequences of integers\<close>

text \<open>The \<open>n\<close> low-order bytes of an integer, least significant first and most
  significant first, and the integer a little-endian byte sequence stands for.\<close>

fun le_bytes :: "nat \<Rightarrow> int \<Rightarrow> byte list" where
  "le_bytes 0 v = []"
| "le_bytes (Suc n) v = word_of_int v # le_bytes n (v div 256)"

definition be_bytes :: "nat \<Rightarrow> int \<Rightarrow> byte list" where
  "be_bytes n v = rev (le_bytes n v)"

fun le_int :: "byte list \<Rightarrow> int" where
  "le_int [] = 0"
| "le_int (b # bs) = uint b + 256 * le_int bs"

text \<open>The buffer \<open>d\<close> with the bytes \<open>bs\<close> in place of those at the positions
  \<open>w, ..., w + length bs - 1\<close>, and every other byte as it was.\<close>

definition splice :: "byte list \<Rightarrow> nat \<Rightarrow> byte list \<Rightarrow> byte list" where
  "splice d w bs = take w d @ bs @ drop (w + length bs) d"

section \<open>The writer\<close>

record writer =
  data :: "byte list option"
  written :: "int option"

type_synonym 'a outcome = "(error + 'a) \<times> writer"

text \<open>\<^verbatim>\<open>new StaticWriter(size)\<close>: \<^verbatim>\<open>Buffer.allocUnsafe(size)\<close> gives \<open>sz\<close> bytes
  of uninitialised memory, here the bytes \<open>mem 0, ..., mem (sz - 1)\<close>.\<close>

definition StaticWriter :: "nat \<Rightarrow> (nat \<Rightarrow> byte) \<Rightarrow> writer" where
  "StaticWriter sz mem = \<lparr>data = Some (map mem [0..<sz]), written = Some 0\<rparr>"

definition destroy :: "writer \<Rightarrow> unit outcome" where
  "destroy s = (Inr (), s\<lparr>data := None, written := None\<rparr>)"

definition render :: "bool \<Rightarrow> writer \<Rightarrow> byte list outcome" where
  "render keep s =
     (case data s of
        None \<Rightarrow> (Inl TypeError, s)
      | Some d \<Rightarrow>
          if written s \<noteq> Some (int (length d)) then (Inl (AssertionError None), s)
          else (Inr d, if \<not> keep then snd (destroy s) else s))"

definition getSize :: "writer \<Rightarrow> int option" where
  "getSize s = written s"

definition seek :: "int \<Rightarrow> writer \<Rightarrow> unit outcome" where
  "seek offset s = (Inr (), s\<lparr>written := Some (ToNumber (written s) + offset)\<rparr>)"

text \<open>\<^verbatim>\<open>this.written = this.data.writeX(value, this.written, true)\<close>, for each of
  the Buffer's integer writers.\<close>

definition buffer_write ::
  "(byte list \<Rightarrow> int \<Rightarrow> int \<Rightarrow> byte list \<times> int) \<Rightarrow> int \<Rightarrow> writer \<Rightarrow> unit outcome" where
  "buffer_write prim v s =
     (case data s of
        None \<Rightarrow> (Inl TypeError, s)
      | Some d \<Rightarrow>
          (case prim d v (ToNumber (written s)) of
             (d', off) \<Rightarrow> (Inr (), s\<lparr>data := Some d', written := Some off\<rparr>)))"

definition writeU8 :: "int \<Rightarrow> writer \<Rightarrow> unit outcome" where
  "writeU8 = buffer_write Buffer_writeUInt8"

definition writeU16 :: "int \<Rightarrow> writer \<Rightarrow> unit outcome" where
  "writeU16 = buffer_write Buffer_writeUInt16LE"

definition writeU16BE :: "int \<Rightarrow> writer \<Rightarrow> unit outcome" where
  "writeU16BE = buffer_write Buffer_writeUInt16BE"

definition writeU32 :: "int \<Rightarrow> writer \<Rightarrow> unit outcome" where
  "writeU32 = buffer_write Buffer_writeUInt32LE"

definition writeU32BE :: "int \<Rightarrow> writer \<Rightarrow> unit outcome" where
  "writeU32BE = buffer_write Buffer_writeUInt32BE"

definition writeI8 :: "int \<Rightarrow> writer \<Rightarrow> unit outcome" where
  "writeI8 = buffer_write Buffer_writeInt8"

definition writeI16 :: "int \<Rightarrow> writer \<Rightarrow> unit outcome" where
  "writeI16 = buffer_write Buffer_writeInt16LE"

definition writeI16BE :: "int \<Rightarrow> writer \<Rightarrow> unit outcome" where
  "writeI16BE = buffer_write Buffer_writeInt16BE"

definition writeI32 :: "int \<Rightarrow> writer \<Rightarrow> unit outcome" where
  "writeI32 = buffer_write Buffer_writeInt32LE"

definition writeI32BE :: "int \<Rightarrow> writer \<Rightarrow> unit outcome" where
  "writeI32BE = buffer_write Buffer_writeInt32BE"

text \<open>The writers of arbitrary-precision values: \<^verbatim>\<open>assert(false, 'Not implemented.')\<close>.\<close>

definition writeU64BN :: "int \<Rightarrow> writer \<Rightarrow> unit outcome" where
  "writeU64BN v s = (Inl (AssertionError (Some ''Not implemented.'')), s)"

definition writeU64BEBN :: "int \<Rightarrow> writer \<Rightarrow> unit outcome" where
  "writeU64BEBN v s = (Inl (AssertionError (Some ''Not implemented.'')), s)"

definition writeI64BN :: "int \<Rightarrow> writer \<Rightarrow> unit outcome" where
  "writeI64BN v s = (Inl (AssertionError (Some ''Not implemented.'')), s)"

definition writeI64BEBN :: "int \<Rightarrow> writer \<Rightarrow> unit outcome" where
  "writeI64BEBN v s = (Inl (AssertionError (Some ''Not implemented.'')), s)"

definition writeVarintBN :: "int \<Rightarrow> writer \<Rightarrow> unit outcome" where
  "writeVarintBN v s = (Inl (AssertionError (Some ''Not implemented.'')), s)"

definition writeVarint2BN :: "int \<Rightarrow> writer \<Rightarrow> unit outcome" where
  "writeVarint2BN v s = (Inl (AssertionError (Some ''Not implemented.'')), s)"

definition writeBytes :: "byte list \<Rightarrow> writer \<Rightarrow> unit outcome" where
  "writeBytes v s =
     (if length v = 0 then (Inr (), s)
      else case data s of
        None \<Rightarrow> (Inl TypeError, s)
      | Some d \<Rightarrow>
          (case Buffer_copy v d (ToNumber (written s)) 0 (int (length v)) of
             Inl e \<Rightarrow> (Inl e, s)
           | Inr d' \<Rightarrow>
               (Inr (), s\<lparr>data := Some d',
                           written := Some (ToNumber (written s) + int (length v))\<rparr>)))"

text \<open>
  Modelled from the spec: \<^verbatim>\<open>encoding.writeVarint(dst, num, off)\<close> of
  \<^verbatim>\<open>lib/utils/encoding.js\<close>, which is not among the sources. The spec gives the
  compact encoding: a value below \<^verbatim>\<open>0xfd\<close> is one byte; a value up to
  \<^verbatim>\<open>0xffff\<close> is the marker \<^verbatim>\<open>0xfd\<close> and 2 bytes little-endian; a value up to
  \<^verbatim>\<open>0xffffffff\<close> is the marker \<^verbatim>\<open>0xfe\<close> and 4 bytes little-endian; a larger
  value is the marker \<^verbatim>\<open>0xff\<close> and 8 bytes little-endian.
\<close>

definition varint_bytes :: "int \<Rightarrow> byte list" where
  "varint_bytes num =
     (if num < 0xfd then le_bytes 1 num
      else if num \<le> 0xffff then 0xfd # le_bytes 2 num
      else if num \<le> 0xffffffff then 0xfe # le_bytes 4 num
      else 0xff # le_bytes 8 num)"

text \<open>
  Modelled from the spec: how \<^verbatim>\<open>encoding.writeVarint\<close> puts the encoding into
  \<open>dst\<close>. The spec says only that the value is appended and the cursor advanced;
  the bytes are stored one after the other from \<open>off\<close> on, as array stores.
\<close>

fun puts :: "byte list \<Rightarrow> int \<Rightarrow> byte list \<Rightarrow> byte list" where
  "puts dst off [] = dst"
| "puts dst off (b # bs) = puts (put dst off (uint b)) (off + 1) bs"

text \<open>
  Modelled from the spec: \<^verbatim>\<open>encoding.writeVarint\<close> returns the offset after the
  bytes it stored, which the writer takes as its new cursor.
\<close>

definition encoding_writeVarint :: "byte list \<Rightarrow> int \<Rightarrow> int \<Rightarrow> byte list \<times> int" where
  "encoding_writeVarint dst num off =
     (puts dst off (varint_bytes num), off + int (length (varint_bytes num)))"

definition writeVarint :: "int \<Rightarrow> writer \<Rightarrow> unit outcome" where
  "writeVarint = buffer_write encoding_writeVarint"

definition writeVarBytes :: "byte list \<Rightarrow> writer \<Rightarrow> unit outcome" where
  "writeVarBytes v s =
     (case writeVarint (int (length v)) s of
        (Inl e, s') \<Rightarrow> (Inl e, s')
      | (Inr u, s') \<Rightarrow> writeBytes v s')"

text \<open>A hash is passed as a Buffer or as a string (\<^verbatim>\<open>typeof value !== 'string'\<close>).\<close>

datatype hash_value = HashBuffer "byte list" | HashString string

definition writeHash :: "hash_value \<Rightarrow> writer \<Rightarrow> unit outcome" where
  "writeHash v s =
     (case v of
        HashBuffer b \<Rightarrow>
          if length b \<noteq> 32 then (Inl (AssertionError None), s)
          else writeBytes b s
      | HashString str \<Rightarrow>
          if length str \<noteq> 64 then (Inl (AssertionError None), s)
          else (case data s of
                  None \<Rightarrow> (Inl TypeError, s)
                | Some d \<Rightarrow>
                    (case Buffer_write_hex d str (ToNumber (written s)) of
                       Inl e \<Rightarrow> (Inl e, s)
                     | Inr d' \<Rightarrow>
                         (Inr (), s\<lparr>data := Some d',
                                     written := Some (ToNumber (written s) + 32)\<rparr>))))"

text \<open>
  Modelled from the spec: \<^verbatim>\<open>digest.hash256\<close> of \<^verbatim>\<open>lib/crypto/digest.js\<close>, which
  is not among the sources. The spec calls it a cryptographic double-hash, the
  hash of the hash; the hash function applied twice is the parameter \<open>H\<close>.
\<close>

definition hash256 :: "(byte list \<Rightarrow> byte list) \<Rightarrow> byte list \<Rightarrow> byte list" where
  "hash256 H bs = H (H bs)"

definition writeChecksum :: "(byte list \<Rightarrow> byte list) \<Rightarrow> writer \<Rightarrow> unit outcome" where
  "writeChecksum H s =
     (case data s of
        None \<Rightarrow> (Inl TypeError, s)
      | Some d \<Rightarrow>
          (let dat = Buffer_slice0 d (ToNumber (written s));
               hash = hash256 H dat
           in case Buffer_copy hash d (ToNumber (written s)) 0 4 of
                Inl e \<Rightarrow> (Inl e, s)
              | Inr d' \<Rightarrow>
                  (Inr (), s\<lparr>data := Some d',
                              written := Some (ToNumber (written s) + 4)\<rparr>)))"

section \<open>The frame format, the Framer and the Parser\<close>



















section \<open>Network parameters\<close>

text \<open>The packet magic numbers of \<^verbatim>\<open>network.js\<close>, in the order of
  \<^verbatim>\<open>network.types\<close>.\<close>

datatype network_type = Main | Testnet | Regtest | Simnet

definition types :: "network_type list" where
  "types = [Main, Testnet, Regtest, Simnet]"

fun magic :: "network_type \<Rightarrow> nat" where
  "magic Main = 0xecd8e1c4"
| "magic Testnet = 0x69fc86db"
| "magic Regtest = 0xdab5bffa"
| "magic Simnet = 0x12141c16"

text \<open>The networks whose magic number is the magic field of a frame.\<close>

definition networks_of_magic :: "nat \<Rightarrow> network_type list" where
  "networks_of_magic m = filter (\<lambda>t. magic t = m) types"

section \<open>What a write is expected to do\<close>

text \<open>A live writer over the buffer \<open>d\<close> whose cursor \<open>w\<close> leaves room for \<open>n\<close>
  more bytes (a Node Buffer has fewer than \<open>2 ^ 32\<close> bytes); and the outcome of a
  write that put \<open>bs\<close> at the cursor and moved the cursor past them.\<close>

definition room :: "writer \<Rightarrow> byte list \<Rightarrow> int \<Rightarrow> nat \<Rightarrow> bool" where
  "room s d w n \<longleftrightarrow>
     data s = Some d \<and> written s = Some w \<and> 0 \<le> w \<and> w + int n \<le> int (length d)
     \<and> length d < 2 ^ 32"

definition wrote :: "writer \<Rightarrow> byte list \<Rightarrow> int \<Rightarrow> byte list \<Rightarrow> unit outcome" where
  "wrote s d w bs =
     (Inr (), s\<lparr>data := Some (splice d (nat w) bs), written := Some (w + int (length bs))\<rparr>)"

text \<open>The bytes a string of hexadecimal digits stands for, one byte for each pair
  of digits, in the order of the string.\<close>

definition hexval :: "char \<Rightarrow> nat" where
  "hexval c = (case unhex c of Some n \<Rightarrow> n | None \<Rightarrow> 0)"

fun hex_pairs :: "string \<Rightarrow> byte list" where
  "hex_pairs (a # b # rest) = of_nat (16 * hexval a + hexval b) # hex_pairs rest"
| "hex_pairs _ = []"

definition is_hex :: "string \<Rightarrow> bool" where
  "is_hex str = list_all (\<lambda>c. unhex c \<noteq> None) str"

section \<open>The protocol's hash and its version packet\<close>

unbundle bit_operations_syntax


























section \<open>Auxiliary facts\<close>

lemma ursh_0: "0 \<le> w \<Longrightarrow> w < 2 ^ 32 \<Longrightarrow> ursh w 0 = w"
  by (simp add: ursh_def ToUint32_def)

lemma ursh_bits: "ursh v k = drop_bit k (take_bit 32 v)"
  by (simp add: ursh_def ToUint32_def take_bit_eq_mod drop_bit_eq_div)

lemma byte_ursh: "k \<le> 24 \<Longrightarrow> (word_of_int (ursh v k) :: byte) = word_of_int (drop_bit k v)"
  by (auto simp: ursh_bits word_of_int_eq_iff drop_bit_take_bit min_def)

lemma byte_ursh8: "(word_of_int (ursh v 8) :: byte) = word_of_int (v div 256)"
  by (simp add: byte_ursh drop_bit_eq_div)

lemma byte_ursh16: "(word_of_int (ursh v 16) :: byte) = word_of_int (v div 256 div 256)"
  by (simp add: byte_ursh drop_bit_eq_div zdiv_zmult2_eq [symmetric])

lemma byte_ursh24: "(word_of_int (ursh v 24) :: byte) = word_of_int (v div 256 div 256 div 256)"
  by (simp add: byte_ursh drop_bit_eq_div zdiv_zmult2_eq [symmetric])

lemma put_nat: "n < length b \<Longrightarrow> put b (int n) v = b[n := word_of_int v]"
  by (simp add: put_def)

lemma put_nat1: "Suc n < length b \<Longrightarrow> put b (int n + 1) v = b[Suc n := word_of_int v]"
  using put_nat [of "Suc n" b v] by (simp add: add.commute)

lemma put_nat2: "Suc (Suc n) < length b \<Longrightarrow> put b (int n + 2) v = b[Suc (Suc n) := word_of_int v]"
  using put_nat [of "Suc (Suc n)" b v] by (simp add: add.commute)

lemma put_nat3:
  "Suc (Suc (Suc n)) < length b \<Longrightarrow> put b (int n + 3) v = b[Suc (Suc (Suc n)) := word_of_int v]"
  using put_nat [of "Suc (Suc (Suc n))" b v] by (simp add: add.commute)

lemma splice_Nil: "splice d n [] = d"
  by (simp add: splice_def)

lemma splice_Cons: "n < length d \<Longrightarrow> splice d n (x # xs) = splice (d[n := x]) (Suc n) xs"
  by (simp add: splice_def take_Suc_conv_app_nth)

lemma length_splice: "w + length bs \<le> length d \<Longrightarrow> length (splice d w bs) = length d"
  by (simp add: splice_def)

lemma splice_splice:
  "w + length a + length b \<le> length d \<Longrightarrow>
   splice (splice d w a) (w + length a) b = splice d w (a @ b)"
  by (simp add: splice_def add.commute add.left_commute)

lemma splice_frame:
  "w + length bs \<le> length d \<Longrightarrow>
   take w (splice d w bs) = take w d
   \<and> take (length bs) (drop w (splice d w bs)) = bs
   \<and> drop (w + length bs) (splice d w bs) = drop (w + length bs) d"
  by (simp add: splice_def)

lemma length_le_bytes: "length (le_bytes n v) = n"
  by (induction n arbitrary: v) auto

lemma uint_byte_of_int: "uint (word_of_int v :: byte) = v mod 256"
  by (simp add: uint_word_of_int)

lemma le_int_le_bytes: "le_int (le_bytes n v) = v mod 256 ^ n"
proof (induction n arbitrary: v)
  case 0
  show ?case by simp
next
  case (Suc n)
  have "v mod (256 * 256 ^ n) = v mod 256 + 256 * (v div 256 mod 256 ^ n)"
    by (simp add: zmod_zmult2_eq)
  then show ?case by (simp add: Suc uint_byte_of_int)
qed

lemma le1: "le_bytes 1 v = [word_of_int v]"
  by simp

lemma le2: "le_bytes 2 v = [word_of_int v, word_of_int (v div 256)]"
  by (simp add: eval_nat_numeral)

lemma le4:
  "le_bytes 4 v = [word_of_int v, word_of_int (v div 256), word_of_int (v div 256 div 256),
     word_of_int (v div 256 div 256 div 256)]"
  by (simp add: eval_nat_numeral)

lemma swap4:
  "Suc (Suc (Suc n)) < length d \<Longrightarrow>
   d[Suc (Suc (Suc n)) := x3, Suc (Suc n) := x2, Suc n := x1, n := x0]
   = d[n := x0, Suc n := x1, Suc (Suc n) := x2, Suc (Suc (Suc n)) := x3]"
  by (simp add: list_eq_iff_nth_eq nth_list_update)

subsection \<open>The Buffer's integer writers inside the buffer\<close>

lemma Buffer_writeUInt8_splice:
  assumes "0 \<le> w" and "w + 1 \<le> int (length d)" and "length d < 2 ^ 32"
  shows "Buffer_writeUInt8 d v w = (splice d (nat w) (le_bytes 1 v), w + 1)"
proof -
  obtain n where n: "w = int n" using assms(1) by (metis nat_0_le)
  have w0: "ursh (int n) 0 = int n" using assms n by (simp add: ursh_0)
  have len: "n < length d" using assms n by simp
  show ?thesis using len
    by (simp add: Buffer_writeUInt8_def w0 n put_nat splice_Cons splice_Nil Let_def)
qed

lemma Buffer_writeUInt16LE_splice:
  assumes "0 \<le> w" and "w + 2 \<le> int (length d)" and "length d < 2 ^ 32"
  shows "Buffer_writeUInt16LE d v w = (splice d (nat w) (le_bytes 2 v), w + 2)"
proof -
  obtain n where n: "w = int n" using assms(1) by (metis nat_0_le)
  have w0: "ursh (int n) 0 = int n" using assms n by (simp add: ursh_0)
  have len: "Suc n < length d" using assms n by simp
  show ?thesis using len
    by (simp add: Buffer_writeUInt16LE_def w0 n put_nat put_nat1 splice_Cons splice_Nil le2
        Let_def byte_ursh8)
qed

lemma Buffer_writeUInt16BE_splice:
  assumes "0 \<le> w" and "w + 2 \<le> int (length d)" and "length d < 2 ^ 32"
  shows "Buffer_writeUInt16BE d v w = (splice d (nat w) (be_bytes 2 v), w + 2)"
proof -
  obtain n where n: "w = int n" using assms(1) by (metis nat_0_le)
  have w0: "ursh (int n) 0 = int n" using assms n by (simp add: ursh_0)
  have len: "Suc n < length d" using assms n by simp
  show ?thesis using len
    by (simp add: Buffer_writeUInt16BE_def be_bytes_def w0 n put_nat put_nat1 splice_Cons
        splice_Nil le2 Let_def byte_ursh8)
qed

lemma Buffer_writeUInt32LE_splice:
  assumes "0 \<le> w" and "w + 4 \<le> int (length d)" and "length d < 2 ^ 32"
  shows "Buffer_writeUInt32LE d v w = (splice d (nat w) (le_bytes 4 v), w + 4)"
proof -
  obtain n where n: "w = int n" using assms(1) by (metis nat_0_le)
  have w0: "ursh (int n) 0 = int n" using assms n by (simp add: ursh_0)
  have len: "Suc (Suc (Suc n)) < length d" using assms n by simp
  show ?thesis using len
    by (simp add: Buffer_writeUInt32LE_def w0 n put_nat put_nat1 put_nat2 put_nat3 splice_Cons
        splice_Nil le4 Let_def byte_ursh8 byte_ursh16 byte_ursh24 swap4)
qed

lemma Buffer_writeUInt32BE_splice:
  assumes "0 \<le> w" and "w + 4 \<le> int (length d)" and "length d < 2 ^ 32"
  shows "Buffer_writeUInt32BE d v w = (splice d (nat w) (be_bytes 4 v), w + 4)"
proof -
  obtain n where n: "w = int n" using assms(1) by (metis nat_0_le)
  have w0: "ursh (int n) 0 = int n" using assms n by (simp add: ursh_0)
  have len: "Suc (Suc (Suc n)) < length d" using assms n by simp
  show ?thesis using len
    by (simp add: Buffer_writeUInt32BE_def be_bytes_def w0 n put_nat put_nat1 put_nat2 put_nat3
        splice_Cons splice_Nil le4 Let_def byte_ursh8 byte_ursh16 byte_ursh24)
qed

lemma Buffer_writeInt8_eq: "Buffer_writeInt8 = Buffer_writeUInt8"
  by (simp add: fun_eq_iff Buffer_writeInt8_def Buffer_writeUInt8_def)

lemma Buffer_writeInt16LE_eq: "Buffer_writeInt16LE = Buffer_writeUInt16LE"
  by (simp add: fun_eq_iff Buffer_writeInt16LE_def Buffer_writeUInt16LE_def)

lemma Buffer_writeInt16BE_eq: "Buffer_writeInt16BE = Buffer_writeUInt16BE"
  by (simp add: fun_eq_iff Buffer_writeInt16BE_def Buffer_writeUInt16BE_def)

lemma Buffer_writeInt32BE_eq: "Buffer_writeInt32BE = Buffer_writeUInt32BE"
  by (simp add: fun_eq_iff Buffer_writeInt32BE_def Buffer_writeUInt32BE_def)

lemma Buffer_writeInt32LE_splice:
  assumes "0 \<le> w" and "w + 4 \<le> int (length d)" and "length d < 2 ^ 32"
  shows "Buffer_writeInt32LE d v w = (splice d (nat w) (le_bytes 4 v), w + 4)"
proof -
  obtain n where n: "w = int n" using assms(1) by (metis nat_0_le)
  have w0: "ursh (int n) 0 = int n" using assms n by (simp add: ursh_0)
  have len: "Suc (Suc (Suc n)) < length d" using assms n by simp
  show ?thesis using len
    by (simp add: Buffer_writeInt32LE_def w0 n put_nat put_nat1 put_nat2 put_nat3 splice_Cons
        splice_Nil le4 Let_def byte_ursh8 byte_ursh16 byte_ursh24)
qed

lemma buffer_write_wrote:
  assumes "room s d w n" and "prim d v w = (splice d (nat w) bs, w + int (length bs))"
  shows "buffer_write prim v s = wrote s d w bs"
  using assms by (simp add: buffer_write_def wrote_def room_def ToNumber_def)

lemma room_less: "room s d w n \<Longrightarrow> 0 \<le> w \<and> w + int n \<le> int (length d) \<and> length d < 2 ^ 32"
  by (simp add: room_def)

text \<open>What \<open>wrote\<close> says of the buffer: it keeps its length, the bytes before the
  cursor and those after the value are unchanged, and the value stands between them.\<close>

lemma wrote_frame:
  assumes "room s d w (length bs)"
  shows "snd (wrote s d w bs)
           = s\<lparr>data := Some (splice d (nat w) bs), written := Some (w + int (length bs))\<rparr>"
    and "length (splice d (nat w) bs) = length d"
    and "take (nat w) (splice d (nat w) bs) = take (nat w) d"
    and "take (length bs) (drop (nat w) (splice d (nat w) bs)) = bs"
    and "drop (nat w + length bs) (splice d (nat w) bs) = drop (nat w + length bs) d"
proof -
  have "nat w + length bs \<le> length d"
    using room_less [OF assms] by linarith
  then show "length (splice d (nat w) bs) = length d"
    and "take (nat w) (splice d (nat w) bs) = take (nat w) d"
    and "take (length bs) (drop (nat w) (splice d (nat w) bs)) = bs"
    and "drop (nat w + length bs) (splice d (nat w) bs) = drop (nat w + length bs) d"
    using splice_frame [of "nat w" bs d] by (simp_all add: length_splice)
  show "snd (wrote s d w bs)
           = s\<lparr>data := Some (splice d (nat w) bs), written := Some (w + int (length bs))\<rparr>"
    by (simp add: wrote_def)
qed

lemma room_fresh: "n \<le> length d \<Longrightarrow> length d < 2 ^ 32 \<Longrightarrow> room \<lparr>data = Some d, written = Some 0\<rparr> d 0 n"
  by (simp add: room_def)

lemma wrote_fresh:
  "wrote \<lparr>data = Some d, written = Some 0\<rparr> d 0 bs
   = (Inr (), \<lparr>data = Some (bs @ drop (length bs) d), written = Some (int (length bs))\<rparr>)"
  by (simp add: wrote_def splice_def)

lemma le8:
  "le_bytes 8 v = [word_of_int v, word_of_int (v div 256), word_of_int (v div 256 div 256),
     word_of_int (v div 256 div 256 div 256), word_of_int (v div 256 div 256 div 256 div 256),
     word_of_int (v div 256 div 256 div 256 div 256 div 256),
     word_of_int (v div 256 div 256 div 256 div 256 div 256 div 256),
     word_of_int (v div 256 div 256 div 256 div 256 div 256 div 256 div 256)]"
  by (simp add: eval_nat_numeral)

section \<open>Rendering and seeking\<close>

text \<open>
  C3. A writer whose buffer has \<open>c\<close> bytes: \<open>render\<close> returns the buffer exactly
  when the cursor is \<open>c\<close>, and throws an assertion error, leaving the writer as it
  is, when the cursor is below or above \<open>c\<close>. On success without the keep flag
  both fields are null afterwards, and a second \<open>render\<close> or a write on that
  writer throws; with the keep flag the writer is unchanged.
\<close>

theorem render_exactly_when_full:
  assumes "data s = Some d" and "written s = Some w"
  shows "render keep s =
           (if w = int (length d)
            then (Inr d, if keep then s else s\<lparr>data := None, written := None\<rparr>)
            else (Inl (AssertionError None), s))
         \<and> fst (render keep' (s\<lparr>data := None, written := None\<rparr>)) = Inl TypeError
         \<and> fst (writeU8 v (s\<lparr>data := None, written := None\<rparr>)) = Inl TypeError"
  using assms by (simp add: render_def destroy_def writeU8_def buffer_write_def)

theorem render_exactly_when_full_witness:
  "render False (StaticWriter 0 (\<lambda>_. 0)) = (Inr [], \<lparr>data = None, written = None\<rparr>)
   \<and> render True (StaticWriter 0 (\<lambda>_. 0)) = (Inr [], StaticWriter 0 (\<lambda>_. 0))
   \<and> render False (StaticWriter 2 (\<lambda>_. 0))
       = (Inl (AssertionError None), StaticWriter 2 (\<lambda>_. 0))
   \<and> render False \<lparr>data = Some [1, 2], written = Some 3\<rparr>
       = (Inl (AssertionError None), \<lparr>data = Some [1, 2], written = Some 3\<rparr>)
   \<and> render False \<lparr>data = Some [1, 2], written = Some 2\<rparr>
       = (Inr [1, 2], \<lparr>data = None, written = None\<rparr>)"
  using render_exactly_when_full [of "StaticWriter 0 (\<lambda>_. 0)" "[]" 0 False]
    render_exactly_when_full [of "StaticWriter 0 (\<lambda>_. 0)" "[]" 0 True]
    render_exactly_when_full [of "StaticWriter 2 (\<lambda>_. 0)" "[0, 0]" 0 False]
    render_exactly_when_full [of "\<lparr>data = Some [1, 2], written = Some 3\<rparr>" "[1, 2]" 3 False]
    render_exactly_when_full [of "\<lparr>data = Some [1, 2], written = Some 2\<rparr>" "[1, 2]" 2 False]
  by (simp add: StaticWriter_def upt_rec)

text \<open>The range checks of \<^verbatim>\<open>Buffer.copy\<close> and of the Buffer's hex \<^verbatim>\<open>write\<close>, on
  a live writer with the cursor \<open>c\<close>.\<close>

lemma writeBytes_range:
  assumes "data s = Some d" and "written s = Some c"
  shows "fst (writeBytes buf s) = (if buf \<noteq> [] \<and> c < 0 then Inl RangeError else Inr ())"
  using assms
  by (simp add: writeBytes_def ToNumber_def Buffer_copy_def Let_def split: sum.split)

lemma writeChecksum_range:
  assumes "data s = Some d" and "written s = Some c"
  shows "fst (writeChecksum H s) = (if c < 0 then Inl RangeError else Inr ())"
  using assms
  by (simp add: writeChecksum_def ToNumber_def Buffer_copy_def Let_def split: sum.split)

lemma writeHash_string_range:
  assumes "data s = Some d" and "written s = Some c" and "length str = 64"
  shows "fst (writeHash (HashString str) s)
         = (if int (length d) < c mod 2 ^ 32 then Inl RangeError else Inr ())"
  using assms
  by (auto simp add: writeHash_def ToNumber_def Buffer_write_hex_def ursh_def ToUint32_def Let_def split: sum.split)

text \<open>
  C10, as amended. \<open>seek\<close> sets the cursor to its previous value plus \<open>delta\<close>,
  for every integer \<open>delta\<close>, and does nothing else: it always returns, and the
  buffer is the same. A following \<open>render\<close> throws its assertion error exactly
  when the new cursor is not the capacity; a following \<open>seek\<close>, fixed-width
  integer write or \<open>writeVarint\<close> returns normally whether or not the cursor is
  inside the buffer. The range checks of the Buffer report a cursor outside the
  buffer as well: a following \<open>writeBytes\<close> of a non-empty buffer, a following
  \<open>writeChecksum\<close> and a following \<open>writeHash\<close> of a 32-byte buffer throw a
  \<^verbatim>\<open>RangeError\<close> exactly when the new cursor is negative, and a following
  \<open>writeHash\<close> of a string of 64 characters exactly when the new cursor, as an
  unsigned 32-bit integer, is past the end of the buffer.
\<close>

theorem seek_adds_offset:
  assumes "data s = Some d" and "written s = Some w"
  shows "seek delta s = (Inr (), s\<lparr>written := Some (w + delta)\<rparr>)
         \<and> data (snd (seek delta s)) = Some d
         \<and> (render keep (snd (seek delta s))
              = (Inl (AssertionError None), snd (seek delta s)))
             = (w + delta \<noteq> int (length d))
         \<and> fst (seek delta' (snd (seek delta s))) = Inr ()
         \<and> fst (writeU8 v (snd (seek delta s))) = Inr ()
         \<and> fst (writeU16 v (snd (seek delta s))) = Inr ()
         \<and> fst (writeU16BE v (snd (seek delta s))) = Inr ()
         \<and> fst (writeU32 v (snd (seek delta s))) = Inr ()
         \<and> fst (writeU32BE v (snd (seek delta s))) = Inr ()
         \<and> fst (writeI8 v (snd (seek delta s))) = Inr ()
         \<and> fst (writeI16 v (snd (seek delta s))) = Inr ()
         \<and> fst (writeI16BE v (snd (seek delta s))) = Inr ()
         \<and> fst (writeI32 v (snd (seek delta s))) = Inr ()
         \<and> fst (writeI32BE v (snd (seek delta s))) = Inr ()
         \<and> fst (writeVarint v (snd (seek delta s))) = Inr ()
         \<and> fst (writeBytes buf (snd (seek delta s)))
             = (if buf \<noteq> [] \<and> w + delta < 0 then Inl RangeError else Inr ())
         \<and> fst (writeChecksum H (snd (seek delta s)))
             = (if w + delta < 0 then Inl RangeError else Inr ())
         \<and> (length b = 32 \<longrightarrow>
              fst (writeHash (HashBuffer b) (snd (seek delta s)))
              = (if w + delta < 0 then Inl RangeError else Inr ()))
         \<and> (length str = 64 \<longrightarrow>
              fst (writeHash (HashString str) (snd (seek delta s)))
              = (if int (length d) < (w + delta) mod 2 ^ 32 then Inl RangeError else Inr ()))"
proof -
  have live: "fst (buffer_write prim v (snd (seek delta s))) = Inr ()" for prim
    using assms by (simp add: seek_def buffer_write_def split: prod.split)
  have moved: "seek delta s = (Inr (), s\<lparr>written := Some (w + delta)\<rparr>)
      \<and> data (snd (seek delta s)) = Some d
      \<and> (render keep (snd (seek delta s))
              = (Inl (AssertionError None), snd (seek delta s)))
             = (w + delta \<noteq> int (length d))
      \<and> fst (seek delta' (snd (seek delta s))) = Inr ()"
    using assms by (simp add: seek_def ToNumber_def render_def destroy_def)
  have writes: "fst (writeU8 v (snd (seek delta s))) = Inr ()
         \<and> fst (writeU16 v (snd (seek delta s))) = Inr ()
         \<and> fst (writeU16BE v (snd (seek delta s))) = Inr ()
         \<and> fst (writeU32 v (snd (seek delta s))) = Inr ()
         \<and> fst (writeU32BE v (snd (seek delta s))) = Inr ()
         \<and> fst (writeI8 v (snd (seek delta s))) = Inr ()
         \<and> fst (writeI16 v (snd (seek delta s))) = Inr ()
         \<and> fst (writeI16BE v (snd (seek delta s))) = Inr ()
         \<and> fst (writeI32 v (snd (seek delta s))) = Inr ()
         \<and> fst (writeI32BE v (snd (seek delta s))) = Inr ()
         \<and> fst (writeVarint v (snd (seek delta s))) = Inr ()"
    by (simp only: live writeU8_def writeU16_def writeU16BE_def writeU32_def writeU32BE_def
        writeI8_def writeI16_def writeI16BE_def writeI32_def writeI32BE_def writeVarint_def
        simp_thms)
  have d': "data (snd (seek delta s)) = Some d"
    and w': "written (snd (seek delta s)) = Some (w + delta)"
    using assms by (simp_all add: seek_def ToNumber_def)
  have bytes: "fst (writeBytes buf (snd (seek delta s)))
             = (if buf \<noteq> [] \<and> w + delta < 0 then Inl RangeError else Inr ())" for buf
    using d' w' by (rule writeBytes_range)
  have sum: "fst (writeChecksum H (snd (seek delta s)))
             = (if w + delta < 0 then Inl RangeError else Inr ())"
    using d' w' by (rule writeChecksum_range)
  have hashb: "length b = 32 \<longrightarrow>
              fst (writeHash (HashBuffer b) (snd (seek delta s)))
              = (if w + delta < 0 then Inl RangeError else Inr ())"
    using bytes [of b] by (auto simp add: writeHash_def)
  have hashs: "length str = 64 \<longrightarrow>
              fst (writeHash (HashString str) (snd (seek delta s)))
              = (if int (length d) < (w + delta) mod 2 ^ 32 then Inl RangeError else Inr ())"
    using writeHash_string_range [OF d' w'] by blast
  show ?thesis
    using moved writes bytes [of buf] sum hashb hashs by blast
qed

theorem seek_adds_offset_witness:
  "seek (-3) (StaticWriter 2 (\<lambda>_. 0))
     = (Inr (), (StaticWriter 2 (\<lambda>_. 0))\<lparr>written := Some (-3)\<rparr>)
   \<and> seek 5 (StaticWriter 2 (\<lambda>_. 0))
     = (Inr (), (StaticWriter 2 (\<lambda>_. 0))\<lparr>written := Some 5\<rparr>)
   \<and> render False (snd (seek 5 (StaticWriter 2 (\<lambda>_. 0))))
       = (Inl (AssertionError None), snd (seek 5 (StaticWriter 2 (\<lambda>_. 0))))
   \<and> render False (snd (seek 2 (StaticWriter 2 (\<lambda>_. 0))))
       \<noteq> (Inl (AssertionError None), snd (seek 2 (StaticWriter 2 (\<lambda>_. 0))))
   \<and> fst (writeU32 7 (snd (seek (-3) (StaticWriter 2 (\<lambda>_. 0))))) = Inr ()
   \<and> fst (writeBytes [1] (snd (seek (-3) (StaticWriter 2 (\<lambda>_. 0))))) = Inl RangeError
   \<and> fst (writeBytes [1] (snd (seek 5 (StaticWriter 2 (\<lambda>_. 0))))) = Inr ()
   \<and> fst (writeHash (HashBuffer (replicate 32 0)) (snd (seek (-3) (StaticWriter 2 (\<lambda>_. 0)))))
       = Inl RangeError
   \<and> fst (writeHash (HashString (replicate 64 CHR ''0'')) (snd (seek 5 (StaticWriter 2 (\<lambda>_. 0)))))
       = Inl RangeError
   \<and> fst (writeHash (HashString (replicate 64 CHR ''0'')) (snd (seek 2 (StaticWriter 2 (\<lambda>_. 0)))))
       = Inr ()"
proof -
  have d: "data (StaticWriter 2 (\<lambda>_. 0)) = Some [0, 0]"
    by (simp add: StaticWriter_def upt_rec)
  have w: "written (StaticWriter 2 (\<lambda>_. 0)) = Some 0"
    by (simp add: StaticWriter_def)
  note at = seek_adds_offset [OF d w, where keep = False and v = 7 and buf = "[1]"
      and b = "replicate 32 0" and str = "replicate 64 CHR ''0''"]
  show ?thesis
    using at [of "-3", simplified] at [of 5, simplified] at [of 2, simplified]
    by blast
qed

text \<open>
  C10, as stated, fails: \<open>render\<close> is not the only place where a cursor that
  \<open>seek\<close> moved out of the buffer is detected. On a writer of 2 bytes,
  \<open>seek(-1)\<close> returns and the following \<open>writeBytes\<close> of one byte throws a
  \<^verbatim>\<open>RangeError\<close>; \<open>seek(3)\<close> returns and the following \<open>writeHash\<close> of a
  string of 64 digits throws a \<^verbatim>\<open>RangeError\<close>.
\<close>

theorem seek_mismatch_detected_by_writes:
  "fst (seek (-1) (StaticWriter 2 (\<lambda>_. 0))) = Inr ()
   \<and> fst (writeBytes [1] (snd (seek (-1) (StaticWriter 2 (\<lambda>_. 0))))) = Inl RangeError
   \<and> fst (seek 3 (StaticWriter 2 (\<lambda>_. 0))) = Inr ()
   \<and> fst (writeHash (HashString (replicate 64 CHR ''0'')) (snd (seek 3 (StaticWriter 2 (\<lambda>_. 0)))))
       = Inl RangeError"
  by (simp add: seek_def StaticWriter_def ToNumber_def writeBytes_def 
      writeHash_def Buffer_copy_def Buffer_write_hex_def ursh_def ToUint32_def Let_def)

section \<open>The unimplemented writers\<close>

text \<open>
  C8. Each of the six writers of arbitrary-precision values throws the assertion
  error \<^verbatim>\<open>Not implemented.\<close> for every value and every writer, and the writer
  (buffer and cursor) is as it was.
\<close>

theorem bn_writers_not_implemented:
  "writeU64BN v s = (Inl (AssertionError (Some ''Not implemented.'')), s)
   \<and> writeU64BEBN v s = (Inl (AssertionError (Some ''Not implemented.'')), s)
   \<and> writeI64BN v s = (Inl (AssertionError (Some ''Not implemented.'')), s)
   \<and> writeI64BEBN v s = (Inl (AssertionError (Some ''Not implemented.'')), s)
   \<and> writeVarintBN v s = (Inl (AssertionError (Some ''Not implemented.'')), s)
   \<and> writeVarint2BN v s = (Inl (AssertionError (Some ''Not implemented.'')), s)"
  by (simp add: writeU64BN_def writeU64BEBN_def writeI64BN_def writeI64BEBN_def
      writeVarintBN_def writeVarint2BN_def)

section \<open>The magic numbers\<close>

text \<open>
  C9. The magic numbers of main, testnet, regtest and simnet are the four values
  of \<^verbatim>\<open>network.js\<close>, each below \<open>2 ^ 32\<close>, and pairwise distinct: two
  networks have the same magic number only when they are the same network, and
  no value is the magic number of more than one network.
\<close>

theorem magic_distinct:
  "map magic types = [0xecd8e1c4, 0x69fc86db, 0xdab5bffa, 0x12141c16]
   \<and> distinct (map magic types)
   \<and> magic t < 2 ^ 32
   \<and> (magic t = magic t') = (t = t')
   \<and> length (networks_of_magic m) \<le> 1"
proof -
  have inj: "(magic t = magic t') = (t = t')"
    by (cases t; cases t') simp_all
  have bound: "magic t < 2 ^ 32"
    by (cases t) simp_all
  have one: "length (networks_of_magic m) \<le> 1"
    by (simp add: networks_of_magic_def types_def)
  show ?thesis
    using inj bound one by (simp add: types_def)
qed

section \<open>Fixed-width integers\<close>

text \<open>
  C6. A writer whose cursor \<open>w\<close> leaves room for the value: \<open>writeU8\<close> and
  \<open>writeI8\<close> put 1 byte at the cursor, \<open>writeU16\<close> and \<open>writeI16\<close> 2 bytes
  least significant first, \<open>writeU16BE\<close> and \<open>writeI16BE\<close> 2 bytes most
  significant first, \<open>writeU32\<close> and \<open>writeI32\<close> 4 bytes least significant
  first, \<open>writeU32BE\<close> and \<open>writeI32BE\<close> 4 bytes most significant first. The
  cursor moves by that number of bytes, the buffer keeps its length, and the bytes
  before the cursor (and those after the value) are unchanged. Read back least
  significant first, the bytes give the value modulo \<open>256 ^ n\<close>: the value itself
  when it is an unsigned \<open>n\<close>-byte integer, its two's complement otherwise.
\<close>

theorem fixed_width_writes:
  "(room s d w 1 \<longrightarrow>
      writeU8 v s = wrote s d w (le_bytes 1 v) \<and> writeI8 v s = wrote s d w (le_bytes 1 v))
   \<and> (room s d w 2 \<longrightarrow>
      writeU16 v s = wrote s d w (le_bytes 2 v) \<and> writeU16BE v s = wrote s d w (be_bytes 2 v)
      \<and> writeI16 v s = wrote s d w (le_bytes 2 v) \<and> writeI16BE v s = wrote s d w (be_bytes 2 v))
   \<and> (room s d w 4 \<longrightarrow>
      writeU32 v s = wrote s d w (le_bytes 4 v) \<and> writeU32BE v s = wrote s d w (be_bytes 4 v)
      \<and> writeI32 v s = wrote s d w (le_bytes 4 v) \<and> writeI32BE v s = wrote s d w (be_bytes 4 v))
   \<and> length (le_bytes n v) = n \<and> le_int (le_bytes n v) = v mod 256 ^ n
   \<and> length (be_bytes n v) = n \<and> le_int (rev (be_bytes n v)) = v mod 256 ^ n"
proof -
  have one: "writeU8 v s = wrote s d w (le_bytes 1 v) \<and> writeI8 v s = wrote s d w (le_bytes 1 v)"
    if r: "room s d w 1"
  proof -
    have "Buffer_writeUInt8 d v w = (splice d (nat w) (le_bytes 1 v), w + int (length (le_bytes 1 v)))"
      using room_less [OF r] by (simp add: Buffer_writeUInt8_splice)
    then show ?thesis
      using r by (simp add: writeU8_def writeI8_def Buffer_writeInt8_eq buffer_write_wrote)
  qed
  have two: "writeU16 v s = wrote s d w (le_bytes 2 v) \<and> writeU16BE v s = wrote s d w (be_bytes 2 v)
      \<and> writeI16 v s = wrote s d w (le_bytes 2 v) \<and> writeI16BE v s = wrote s d w (be_bytes 2 v)"
    if r: "room s d w 2"
  proof -
    have le: "Buffer_writeUInt16LE d v w
        = (splice d (nat w) (le_bytes 2 v), w + int (length (le_bytes 2 v)))"
      using room_less [OF r] by (simp add: Buffer_writeUInt16LE_splice length_le_bytes)
    have be: "Buffer_writeUInt16BE d v w
        = (splice d (nat w) (be_bytes 2 v), w + int (length (be_bytes 2 v)))"
      using room_less [OF r]
      by (simp add: Buffer_writeUInt16BE_splice be_bytes_def length_le_bytes)
    show ?thesis
      using r le be
      by (simp add: writeU16_def writeI16_def writeU16BE_def writeI16BE_def
          Buffer_writeInt16LE_eq Buffer_writeInt16BE_eq buffer_write_wrote)
  qed
  have four: "writeU32 v s = wrote s d w (le_bytes 4 v) \<and> writeU32BE v s = wrote s d w (be_bytes 4 v)
      \<and> writeI32 v s = wrote s d w (le_bytes 4 v) \<and> writeI32BE v s = wrote s d w (be_bytes 4 v)"
    if r: "room s d w 4"
  proof -
    have le: "Buffer_writeUInt32LE d v w
        = (splice d (nat w) (le_bytes 4 v), w + int (length (le_bytes 4 v)))"
      using room_less [OF r] by (simp add: Buffer_writeUInt32LE_splice length_le_bytes)
    have le': "Buffer_writeInt32LE d v w
        = (splice d (nat w) (le_bytes 4 v), w + int (length (le_bytes 4 v)))"
      using room_less [OF r] by (simp add: Buffer_writeInt32LE_splice length_le_bytes)
    have be: "Buffer_writeUInt32BE d v w
        = (splice d (nat w) (be_bytes 4 v), w + int (length (be_bytes 4 v)))"
      using room_less [OF r]
      by (simp add: Buffer_writeUInt32BE_splice be_bytes_def length_le_bytes)
    show ?thesis
      using r le le' be
      by (simp add: writeU32_def writeI32_def writeU32BE_def writeI32BE_def
          Buffer_writeInt32BE_eq buffer_write_wrote)
  qed
  have dec: "length (le_bytes n v) = n \<and> le_int (le_bytes n v) = v mod 256 ^ n
     \<and> length (be_bytes n v) = n \<and> le_int (rev (be_bytes n v)) = v mod 256 ^ n"
    by (simp add: length_le_bytes le_int_le_bytes be_bytes_def)
  show ?thesis
    using one two four dec by blast
qed

theorem fixed_width_writes_witness:
  "writeU8 0x1ff (StaticWriter 1 (\<lambda>_. 0)) = (Inr (), \<lparr>data = Some [0xff], written = Some 1\<rparr>)
   \<and> writeU16 0x1234 (StaticWriter 2 (\<lambda>_. 0))
       = (Inr (), \<lparr>data = Some [0x34, 0x12], written = Some 2\<rparr>)
   \<and> writeU16BE 0x1234 (StaticWriter 2 (\<lambda>_. 0))
       = (Inr (), \<lparr>data = Some [0x12, 0x34], written = Some 2\<rparr>)
   \<and> writeI16 (-2) (StaticWriter 2 (\<lambda>_. 0))
       = (Inr (), \<lparr>data = Some [0xfe, 0xff], written = Some 2\<rparr>)
   \<and> writeU32 0x12345678 \<lparr>data = Some [9, 0, 0, 0, 0, 7], written = Some 1\<rparr>
       = (Inr (), \<lparr>data = Some [9, 0x78, 0x56, 0x34, 0x12, 7], written = Some 5\<rparr>)
   \<and> writeI32BE 0x12345678 \<lparr>data = Some [9, 0, 0, 0, 0, 7], written = Some 1\<rparr>
       = (Inr (), \<lparr>data = Some [9, 0x12, 0x34, 0x56, 0x78, 7], written = Some 5\<rparr>)"
proof -
  have r1: "room (StaticWriter 1 (\<lambda>_. 0)) [0] 0 1"
    by (simp add: room_def StaticWriter_def)
  have r2: "room (StaticWriter 2 (\<lambda>_. 0)) [0, 0] 0 2"
    by (simp add: room_def StaticWriter_def upt_rec)
  have r4: "room \<lparr>data = Some [9, 0, 0, 0, 0, 7], written = Some 1\<rparr> [9, 0, 0, 0, 0, 7] 1 4"
    by (simp add: room_def)
  show ?thesis
    using fixed_width_writes [of "StaticWriter 1 (\<lambda>_. 0)" "[0]" 0 "0x1ff"] r1
      fixed_width_writes [of "StaticWriter 2 (\<lambda>_. 0)" "[0, 0]" 0 "0x1234"] r2
      fixed_width_writes [of "StaticWriter 2 (\<lambda>_. 0)" "[0, 0]" 0 "-2"]
      fixed_width_writes [of "\<lparr>data = Some [9, 0, 0, 0, 0, 7], written = Some 1\<rparr>"
        "[9, 0, 0, 0, 0, 7]" 1 "0x12345678"] r4
    by (simp add: wrote_def splice_def be_bytes_def le2 le4 StaticWriter_def upt_rec)
qed

section \<open>Compact lengths\<close>

lemma puts_splice:
  "0 \<le> w \<Longrightarrow> nat w + length bs \<le> length d \<Longrightarrow> puts d w bs = splice d (nat w) bs"
proof (induction bs arbitrary: d w)
  case Nil
  show ?case by (simp add: splice_Nil)
next
  case (Cons b bs)
  obtain n where n: "w = int n" using Cons.prems(1) by (metis nat_0_le)
  have len: "n < length d" using Cons.prems n by simp
  have "puts (d[n := b]) (int n + 1) bs = splice (d[n := b]) (nat (int n + 1)) bs"
    using Cons.prems n by (intro Cons.IH) simp_all
  then show ?case
    using len by (simp add: n put_nat splice_Cons nat_add_distrib)
qed

lemma writeVarint_wrote:
  assumes "room s d w (length (varint_bytes n))"
  shows "writeVarint n s = wrote s d w (varint_bytes n)"
proof -
  have "nat w + length (varint_bytes n) \<le> length d" and "0 \<le> w"
    using room_less [OF assms] by linarith+
  then have "encoding_writeVarint d n w
      = (splice d (nat w) (varint_bytes n), w + int (length (varint_bytes n)))"
    by (simp add: encoding_writeVarint_def puts_splice)
  then show ?thesis
    using assms by (simp add: writeVarint_def buffer_write_wrote)
qed

lemma length_varint_bytes:
  "length (varint_bytes n) = (if n < 0xfd then 1 else if n \<le> 0xffff then 3
     else if n \<le> 0xffffffff then 5 else 9)"
  by (simp add: varint_bytes_def length_le_bytes)

text \<open>
  C1. \<open>writeVarint n\<close> on a writer with room for the encoding puts at the
  cursor: the byte \<open>n\<close> when \<open>n < 0xfd\<close>; \<^verbatim>\<open>0xfd\<close> and \<open>n\<close> as 2 bytes little-endian
  when \<open>n \<le> 0xffff\<close>; \<^verbatim>\<open>0xfe\<close> and \<open>n\<close> as 4 bytes little-endian when
  \<open>n \<le> 0xffffffff\<close>; \<^verbatim>\<open>0xff\<close> and \<open>n\<close> as 8 bytes little-endian otherwise. The
  bytes after the marker, read little-endian, are \<open>n\<close> (for \<open>n < 2 ^ 64\<close>); the
  cursor moves by the length of the encoding and the bytes before it are unchanged.
  The instance after the theorem evaluates it at 0, 0xfc, 0xfd, 0xffff, 0x10000,
  0xffffffff and 0x100000000.
\<close>

theorem writeVarint_compact:
  "(n < 0xfd \<and> room s d w 1 \<longrightarrow> writeVarint n s = wrote s d w [word_of_int n])
   \<and> (0xfd \<le> n \<and> n \<le> 0xffff \<and> room s d w 3 \<longrightarrow>
        writeVarint n s = wrote s d w (0xfd # le_bytes 2 n))
   \<and> (0xffff < n \<and> n \<le> 0xffffffff \<and> room s d w 5 \<longrightarrow>
        writeVarint n s = wrote s d w (0xfe # le_bytes 4 n))
   \<and> (0xffffffff < n \<and> room s d w 9 \<longrightarrow>
        writeVarint n s = wrote s d w (0xff # le_bytes 8 n))
   \<and> (0 \<le> n \<and> n < 2 ^ 64 \<longrightarrow>
        le_int (if n < 0xfd then varint_bytes n else tl (varint_bytes n)) = n)"
proof -
  have c1: "writeVarint n s = wrote s d w [word_of_int n]" if "n < 0xfd" and "room s d w 1"
    using that writeVarint_wrote [of s d w n] by (simp add: length_varint_bytes varint_bytes_def length_le_bytes)
  have c2: "writeVarint n s = wrote s d w (0xfd # le_bytes 2 n)"
    if "0xfd \<le> n" and "n \<le> 0xffff" and "room s d w 3"
    using that writeVarint_wrote [of s d w n] by (simp add: length_varint_bytes varint_bytes_def length_le_bytes)
  have c3: "writeVarint n s = wrote s d w (0xfe # le_bytes 4 n)"
    if "0xffff < n" and "n \<le> 0xffffffff" and "room s d w 5"
    using that writeVarint_wrote [of s d w n] by (simp add: length_varint_bytes varint_bytes_def length_le_bytes)
  have c4: "writeVarint n s = wrote s d w (0xff # le_bytes 8 n)"
    if "0xffffffff < n" and "room s d w 9"
    using that writeVarint_wrote [of s d w n] by (simp add: length_varint_bytes varint_bytes_def length_le_bytes)
  have dec: "le_int (if n < 0xfd then varint_bytes n else tl (varint_bytes n)) = n"
    if "0 \<le> n" and "n < 2 ^ 64"
    using that by (auto simp: varint_bytes_def le_int_le_bytes uint_byte_of_int)
  show ?thesis
    using c1 c2 c3 c4 dec by blast
qed


theorem writeVarint_compact_witness:
  "writeVarint 0 \<lparr>data = Some [7], written = Some 0\<rparr>
     = (Inr (), \<lparr>data = Some [0], written = Some 1\<rparr>)
   \<and> writeVarint 0xfc \<lparr>data = Some [7], written = Some 0\<rparr>
     = (Inr (), \<lparr>data = Some [0xfc], written = Some 1\<rparr>)
   \<and> writeVarint 0xfd \<lparr>data = Some [7, 7, 7], written = Some 0\<rparr>
     = (Inr (), \<lparr>data = Some [0xfd, 0xfd, 0], written = Some 3\<rparr>)
   \<and> writeVarint 0xffff \<lparr>data = Some [7, 7, 7], written = Some 0\<rparr>
     = (Inr (), \<lparr>data = Some [0xfd, 0xff, 0xff], written = Some 3\<rparr>)
   \<and> writeVarint 0x10000 \<lparr>data = Some [7, 7, 7, 7, 7], written = Some 0\<rparr>
     = (Inr (), \<lparr>data = Some [0xfe, 0, 0, 1, 0], written = Some 5\<rparr>)
   \<and> writeVarint 0xffffffff \<lparr>data = Some [7, 7, 7, 7, 7], written = Some 0\<rparr>
     = (Inr (), \<lparr>data = Some [0xfe, 0xff, 0xff, 0xff, 0xff], written = Some 5\<rparr>)
   \<and> writeVarint 0x100000000 \<lparr>data = Some [7, 7, 7, 7, 7, 7, 7, 7, 7], written = Some 0\<rparr>
     = (Inr (), \<lparr>data = Some [0xff, 0, 0, 0, 0, 1, 0, 0, 0], written = Some 9\<rparr>)
   \<and> le_int (tl (varint_bytes 0x100000000)) = 0x100000000"
proof -
  have l8: "le_bytes 8 0x100000000 = [0, 0, 0, 0, 1, 0, 0, 0]"
    by (simp add: le8)
  show ?thesis
    using writeVarint_compact [of 0 "\<lparr>data = Some [7], written = Some 0\<rparr>" "[7]" 0]
      writeVarint_compact [of "0xfc" "\<lparr>data = Some [7], written = Some 0\<rparr>" "[7]" 0]
      writeVarint_compact [of "0xfd" "\<lparr>data = Some [7, 7, 7], written = Some 0\<rparr>" "[7, 7, 7]" 0]
      writeVarint_compact [of "0xffff" "\<lparr>data = Some [7, 7, 7], written = Some 0\<rparr>" "[7, 7, 7]" 0]
      writeVarint_compact [of "0x10000" "\<lparr>data = Some [7, 7, 7, 7, 7], written = Some 0\<rparr>"
        "[7, 7, 7, 7, 7]" 0]
      writeVarint_compact [of "0xffffffff" "\<lparr>data = Some [7, 7, 7, 7, 7], written = Some 0\<rparr>"
        "[7, 7, 7, 7, 7]" 0]
      writeVarint_compact [of "0x100000000"
        "\<lparr>data = Some [7, 7, 7, 7, 7, 7, 7, 7, 7], written = Some 0\<rparr>"
        "[7, 7, 7, 7, 7, 7, 7, 7, 7]" 0]
    by (simp add: room_fresh wrote_fresh le2 le4 l8)
qed

section \<open>Raw bytes\<close>

lemma Buffer_copy_splice:
  assumes "0 \<le> w" and "w + int (length v) \<le> int (length d)"
  shows "Buffer_copy v d w 0 (int (length v)) = Inr (splice d (nat w) v)"
proof (cases "v = []")
  case True
  then show ?thesis
    using assms by (simp add: Buffer_copy_def splice_def)
next
  case False
  then obtain k where k: "length v = Suc k"
    by (cases v) auto
  show ?thesis
    using assms by (simp add: Buffer_copy_def splice_def Let_def min_def k nat_add_distrib)
qed

lemma writeBytes_wrote:
  assumes "room s d w (length v)"
  shows "writeBytes v s = wrote s d w v"
proof (cases "v = []")
  case True
  then show ?thesis
    using assms by (simp add: writeBytes_def wrote_def room_def splice_def)
next
  case False
  have "Buffer_copy v d w 0 (int (length v)) = Inr (splice d (nat w) v)"
    using room_less [OF assms] by (simp add: Buffer_copy_splice)
  then show ?thesis
    using assms False by (simp add: writeBytes_def wrote_def room_def ToNumber_def)
qed

lemma room_after:
  assumes "room s d w (length a + n)"
  shows "room (snd (wrote s d w a)) (splice d (nat w) a) (w + int (length a)) n"
proof -
  have "nat w + length a \<le> length d"
    using room_less [OF assms] by linarith
  then show ?thesis
    using assms by (simp add: room_def wrote_def length_splice)
qed

lemma wrote_wrote:
  assumes "room s d w (length a + length b)"
  shows "wrote (snd (wrote s d w a)) (splice d (nat w) a) (w + int (length a)) b
         = wrote s d w (a @ b)"
proof -
  have le: "nat w + length a + length b \<le> length d" and w: "0 \<le> w"
    using room_less [OF assms] by linarith+
  have "splice (splice d (nat w) a) (nat w + length a) b = splice d (nat w) (a @ b)"
    using le by (rule splice_splice)
  then show ?thesis
    using w by (simp add: wrote_def nat_add_distrib add.assoc)
qed

text \<open>
  C7. \<open>writeBytes buf\<close> on a writer with room for \<open>buf\<close> puts \<open>buf\<close> at the
  cursor and moves the cursor by \<open>length buf\<close>; with the empty buffer it returns
  the writer as it is, whatever the writer. \<open>writeVarBytes buf\<close> is
  \<open>writeVarint (length buf)\<close> and then \<open>writeBytes buf\<close>: with room for both, the
  bytes at the cursor are the encoding of the length followed by \<open>buf\<close>.
\<close>

theorem writeBytes_raw_copy:
  "(room s d w (length buf) \<longrightarrow> writeBytes buf s = wrote s d w buf)
   \<and> writeBytes [] s = (Inr (), s)
   \<and> writeVarBytes buf s
       = (case writeVarint (int (length buf)) s of
            (Inl e, s') \<Rightarrow> (Inl e, s')
          | (Inr u, s') \<Rightarrow> writeBytes buf s')
   \<and> (room s d w (length (varint_bytes (int (length buf))) + length buf) \<longrightarrow>
        writeVarint (int (length buf)) s = wrote s d w (varint_bytes (int (length buf)))
        \<and> writeVarBytes buf s = wrote s d w (varint_bytes (int (length buf)) @ buf))"
proof -
  let ?p = "varint_bytes (int (length buf))"
  have raw: "writeBytes buf s = wrote s d w buf" if "room s d w (length buf)"
    using that by (rule writeBytes_wrote)
  have empty: "writeBytes [] s = (Inr (), s)"
    by (simp add: writeBytes_def)
  have var: "writeVarint (int (length buf)) s = wrote s d w ?p
      \<and> writeVarBytes buf s = wrote s d w (?p @ buf)"
    if r: "room s d w (length ?p + length buf)"
  proof -
    have "room s d w (length ?p)"
      using r by (simp add: room_def)
    then have v: "writeVarint (int (length buf)) s = wrote s d w ?p"
      by (rule writeVarint_wrote)
    have "writeBytes buf (snd (wrote s d w ?p))
        = wrote (snd (wrote s d w ?p)) (splice d (nat w) ?p) (w + int (length ?p)) buf"
      using room_after [OF r] by (rule writeBytes_wrote)
    then have "writeBytes buf (snd (wrote s d w ?p)) = wrote s d w (?p @ buf)"
      using wrote_wrote [OF r] by simp
    then show ?thesis
      using v by (simp add: writeVarBytes_def wrote_def)
  qed
  have unf: "writeVarBytes buf s
       = (case writeVarint (int (length buf)) s of
            (Inl e, s') \<Rightarrow> (Inl e, s')
          | (Inr u, s') \<Rightarrow> writeBytes buf s')"
    by (simp add: writeVarBytes_def)
  show ?thesis
    using raw empty unf var by blast
qed

theorem writeBytes_raw_copy_witness:
  "writeBytes [1, 2] \<lparr>data = Some [9, 0, 0, 8], written = Some 1\<rparr>
     = (Inr (), \<lparr>data = Some [9, 1, 2, 8], written = Some 3\<rparr>)
   \<and> writeVarBytes [1, 2] \<lparr>data = Some [9, 0, 0, 0, 8], written = Some 1\<rparr>
     = (Inr (), \<lparr>data = Some [9, 2, 1, 2, 8], written = Some 4\<rparr>)
   \<and> writeVarBytes [] \<lparr>data = Some [9, 7], written = Some 1\<rparr>
     = (Inr (), \<lparr>data = Some [9, 0], written = Some 2\<rparr>)"
proof -
  have v2: "varint_bytes 2 = [2]" and v0: "varint_bytes 0 = [0]"
    by (simp_all add: varint_bytes_def)
  have "room \<lparr>data = Some [9, 0, 0, 8], written = Some 1\<rparr> [9, 0, 0, 8] 1 (length [1, 2 :: byte])"
    by (simp add: room_def)
  then have a: "writeBytes [1, 2] \<lparr>data = Some [9, 0, 0, 8], written = Some 1\<rparr>
      = wrote \<lparr>data = Some [9, 0, 0, 8], written = Some 1\<rparr> [9, 0, 0, 8] 1 [1, 2]"
    using writeBytes_raw_copy [of "\<lparr>data = Some [9, 0, 0, 8], written = Some 1\<rparr>"
        "[9, 0, 0, 8]" 1 "[1, 2]"]
    by blast
  have "room \<lparr>data = Some [9, 0, 0, 0, 8], written = Some 1\<rparr> [9, 0, 0, 0, 8] 1
      (length (varint_bytes (int (length [1, 2 :: byte]))) + length [1, 2 :: byte])"
    by (simp add: room_def v2)
  then have b: "writeVarBytes [1, 2] \<lparr>data = Some [9, 0, 0, 0, 8], written = Some 1\<rparr>
      = wrote \<lparr>data = Some [9, 0, 0, 0, 8], written = Some 1\<rparr> [9, 0, 0, 0, 8] 1
          (varint_bytes (int (length [1, 2 :: byte])) @ [1, 2])"
    using writeBytes_raw_copy [of "\<lparr>data = Some [9, 0, 0, 0, 8], written = Some 1\<rparr>"
        "[9, 0, 0, 0, 8]" 1 "[1, 2]"]
    by blast
  have "room \<lparr>data = Some [9, 7], written = Some 1\<rparr> [9, 7] 1
      (length (varint_bytes (int (length ([] :: byte list)))) + length ([] :: byte list))"
    by (simp add: room_def v0)
  then have c: "writeVarBytes [] \<lparr>data = Some [9, 7], written = Some 1\<rparr>
      = wrote \<lparr>data = Some [9, 7], written = Some 1\<rparr> [9, 7] 1
          (varint_bytes (int (length ([] :: byte list))) @ [])"
    using writeBytes_raw_copy [of "\<lparr>data = Some [9, 7], written = Some 1\<rparr>" "[9, 7]" 1 "[]"]
    by blast
  show ?thesis
    unfolding a b c by (simp add: wrote_def splice_def v2 v0)
qed

section \<open>Hashes\<close>

lemma hex_decode_pairs:
  "is_hex str \<Longrightarrow> length str \<le> 2 * n \<Longrightarrow> hex_decode n str = hex_pairs str"
proof (induction str arbitrary: n rule: hex_pairs.induct)
  case (1 a b rest)
  then obtain m where m: "n = Suc m"
    by (cases n) auto
  have "hex_decode m rest = hex_pairs rest"
    using "1.prems" m by (intro "1.IH") (simp_all add: is_hex_def)
  then show ?case
    using "1.prems" by (auto simp: m is_hex_def hexval_def)
qed (case_tac [!] n, simp_all)

lemma length_hex_pairs: "length (hex_pairs str) = length str div 2"
  by (induction str rule: hex_pairs.induct) simp_all

lemma Buffer_write_hex_splice:
  assumes "0 \<le> w" and "w + 32 \<le> int (length d)" and "length d < 2 ^ 32"
    and "length str = 64" and "is_hex str"
  shows "Buffer_write_hex d str w = Inr (splice d (nat w) (hex_pairs str))"
proof -
  have w0: "ursh w 0 = w"
    using assms by (simp add: ursh_0)
  have "length str \<le> 2 * nat (int (length d) - w)"
    using assms by simp
  then have "hex_decode (nat (int (length d) - w)) str = hex_pairs str"
    using assms(5) by (simp add: hex_decode_pairs)
  then show ?thesis
    using assms by (simp add: Buffer_write_hex_def w0 Let_def splice_def)
qed

text \<open>
  C2, as amended. On a writer with room for 32 bytes, \<open>writeHash\<close> of a 32-byte
  buffer puts those bytes at the cursor, and \<open>writeHash\<close> of a string of 64
  hexadecimal digits puts the 32 bytes of its digit pairs at the cursor in the
  order of the string: the first pair is the first byte written, and no byte is
  reversed. The cursor moves by 32 and the bytes before it are unchanged. A buffer
  whose length is not 32 and a string whose length is not 64 throw an assertion
  error, and the writer is as it was.
\<close>

theorem writeHash_in_string_order:
  "(length b = 32 \<and> room s d w 32 \<longrightarrow> writeHash (HashBuffer b) s = wrote s d w b)
   \<and> (length b \<noteq> 32 \<longrightarrow> writeHash (HashBuffer b) s = (Inl (AssertionError None), s))
   \<and> (length str = 64 \<and> is_hex str \<and> room s d w 32 \<longrightarrow>
        writeHash (HashString str) s = wrote s d w (hex_pairs str)
        \<and> length (hex_pairs str) = 32)
   \<and> (length str \<noteq> 64 \<longrightarrow> writeHash (HashString str) s = (Inl (AssertionError None), s))"
proof -
  have buf: "writeHash (HashBuffer b) s = wrote s d w b" if "length b = 32" and "room s d w 32"
    using that writeBytes_wrote [of s d w b] by (simp add: writeHash_def)
  have bad_buf: "writeHash (HashBuffer b) s = (Inl (AssertionError None), s)" if "length b \<noteq> 32"
    using that by (simp add: writeHash_def)
  have str: "writeHash (HashString str) s = wrote s d w (hex_pairs str)
      \<and> length (hex_pairs str) = 32"
    if l: "length str = 64" and h: "is_hex str" and r: "room s d w 32"
  proof -
    have "Buffer_write_hex d str w = Inr (splice d (nat w) (hex_pairs str))"
      using room_less [OF r] l h by (simp add: Buffer_write_hex_splice)
    then show ?thesis
      using l r by (simp add: writeHash_def room_def wrote_def ToNumber_def length_hex_pairs)
  qed
  have bad_str: "writeHash (HashString str) s = (Inl (AssertionError None), s)"
    if "length str \<noteq> 64"
    using that by (simp add: writeHash_def)
  show ?thesis
    using buf bad_buf str bad_str by blast
qed

theorem writeHash_in_string_order_witness:
  "writeHash (HashString ''000102030405060708090a0b0c0d0e0f101112131415161718191A1B1C1D1E1F'')
     \<lparr>data = Some (replicate 33 7), written = Some 1\<rparr>
   = (Inr (), \<lparr>data = Some [7, 0, 1, 2, 3, 4, 5, 6, 7, 8, 9, 10, 11, 12, 13, 14, 15, 16, 17, 18,
        19, 20, 21, 22, 23, 24, 25, 26, 27, 28, 29, 30, 31], written = Some 33\<rparr>)
   \<and> writeHash (HashBuffer [1, 2, 3]) \<lparr>data = Some (replicate 33 7), written = Some 1\<rparr>
   = (Inl (AssertionError None), \<lparr>data = Some (replicate 33 7), written = Some 1\<rparr>)
   \<and> writeHash (HashBuffer (replicate 32 5)) \<lparr>data = Some (replicate 33 7), written = Some 1\<rparr>
   = (Inr (), \<lparr>data = Some (7 # replicate 32 5), written = Some 33\<rparr>)
   \<and> writeHash (HashString ''25c875518d7b37'') \<lparr>data = Some (replicate 33 7), written = Some 1\<rparr>
   = (Inl (AssertionError None), \<lparr>data = Some (replicate 33 7), written = Some 1\<rparr>)"
proof -
  let ?str = "''000102030405060708090a0b0c0d0e0f101112131415161718191A1B1C1D1E1F''"
  let ?s = "\<lparr>data = Some (replicate 33 7), written = Some 1\<rparr>"
  have r: "room ?s (replicate 33 7) 1 32"
    by (simp add: room_def)
  have l: "length ?str = 64"
    by simp
  have h: "is_hex ?str"
    by code_simp
  have e: "hex_pairs ?str = [0, 1, 2, 3, 4, 5, 6, 7, 8, 9, 10, 11, 12, 13, 14, 15, 16, 17, 18,
        19, 20, 21, 22, 23, 24, 25, 26, 27, 28, 29, 30, 31]"
    by code_simp
  have t: "replicate 33 (7 :: byte) = 7 # replicate 32 7"
    by (simp add: eval_nat_numeral)
  have a: "writeHash (HashString ?str) ?s = wrote ?s (replicate 33 7) 1 (hex_pairs ?str)"
    using writeHash_in_string_order [of "[]" ?s "replicate 33 7" 1 ?str] r l h by blast
  have "length [1, 2, 3 :: byte] \<noteq> 32"
    by simp
  then have b: "writeHash (HashBuffer [1, 2, 3]) ?s = (Inl (AssertionError None), ?s)"
    using writeHash_in_string_order [of "[1, 2, 3]" ?s] by blast
  have "length (replicate 32 (5 :: byte)) = 32"
    by simp
  then have c: "writeHash (HashBuffer (replicate 32 5)) ?s = wrote ?s (replicate 33 7) 1 (replicate 32 5)"
    using writeHash_in_string_order [of "replicate 32 5" ?s "replicate 33 7" 1] r by blast
  have "length ''25c875518d7b37'' \<noteq> 64"
    by simp
  then have d: "writeHash (HashString ''25c875518d7b37'') ?s = (Inl (AssertionError None), ?s)"
    using writeHash_in_string_order [of "[]" ?s "[]" 0 "''25c875518d7b37''"] by blast
  show ?thesis
    unfolding a b c d e by (simp add: wrote_def splice_def t)
qed

text \<open>
  C2, as stated, fails: the string \<^verbatim>\<open>01\<close> followed by 62 zeros is written as the
  byte 1 followed by 31 zero bytes, which is the order of its digit pairs and not
  the reverse.
\<close>

theorem writeHash_not_reversed:
  "snd (writeHash (HashString ''0100000000000000000000000000000000000000000000000000000000000000'')
         (StaticWriter 32 (\<lambda>_. 0)))
     = \<lparr>data = Some (1 # replicate 31 0), written = Some 32\<rparr>
   \<and> (1 # replicate 31 0 :: byte list)
       \<noteq> rev (hex_pairs ''0100000000000000000000000000000000000000000000000000000000000000'')"
  by code_simp


section \<open>The checksum\<close>

lemma Buffer_slice0_take:
  "0 \<le> w \<Longrightarrow> w \<le> int (length d) \<Longrightarrow> Buffer_slice0 d w = take (nat w) d"
  by (auto simp: Buffer_slice0_def Let_def)

lemma Buffer_copy_first4:
  assumes "0 \<le> w" and "w + 4 \<le> int (length d)" and "4 \<le> length h"
  shows "Buffer_copy h d w 0 4 = Inr (splice d (nat w) (take 4 h))"
  using assms by (simp add: Buffer_copy_def splice_def Let_def min_def)

text \<open>
  C4. A writer with \<open>w\<close> bytes written and room for 4 more: \<open>writeChecksum\<close>
  applies the hash function twice to the first \<open>w\<close> bytes of the buffer, puts
  the first 4 bytes of that digest at the cursor and moves the cursor by 4; the
  \<open>w\<close> bytes before the cursor are unchanged. The hash function is any function
  \<open>H\<close> whose digests have at least 4 bytes.
\<close>

theorem writeChecksum_first4:
  "(room s d w 4 \<and> 4 \<le> length (H (H (take (nat w) d))) \<longrightarrow>
      writeChecksum H s = wrote s d w (take 4 (hash256 H (take (nat w) d)))
      \<and> length (take 4 (hash256 H (take (nat w) d))) = 4)
   \<and> hash256 H bs = H (H bs)"
proof -
  have sum: "writeChecksum H s = wrote s d w (take 4 (hash256 H (take (nat w) d)))
      \<and> length (take 4 (hash256 H (take (nat w) d))) = 4"
    if r: "room s d w 4" and l: "4 \<le> length (H (H (take (nat w) d)))"
  proof -
    have sl: "Buffer_slice0 d w = take (nat w) d"
      using room_less [OF r] by (simp add: Buffer_slice0_take)
    have "Buffer_copy (hash256 H (take (nat w) d)) d w 0 4
        = Inr (splice d (nat w) (take 4 (hash256 H (take (nat w) d))))"
      using room_less [OF r] l by (simp add: Buffer_copy_first4 hash256_def)
    then show ?thesis
      using r l by (simp add: writeChecksum_def room_def wrote_def ToNumber_def sl hash256_def)
  qed
  show ?thesis
    using sum by (simp add: hash256_def)
qed

theorem writeChecksum_first4_witness:
  "writeChecksum (\<lambda>bs. map (\<lambda>b. b + 1) bs @ [0xaa, 0xbb, 0xcc, 0xdd])
     \<lparr>data = Some [1, 2, 0, 0, 0, 0, 9], written = Some 2\<rparr>
   = (Inr (), \<lparr>data = Some [1, 2, 3, 4, 0xab, 0xbc, 9], written = Some 6\<rparr>)"
proof -
  let ?H = "\<lambda>bs :: byte list. map (\<lambda>b. b + 1) bs @ [0xaa, 0xbb, 0xcc, 0xdd]"
  let ?s = "\<lparr>data = Some [1, 2, 0, 0, 0, 0, 9 :: byte], written = Some 2\<rparr>"
  have r: "room ?s [1, 2, 0, 0, 0, 0, 9] 2 4"
    by (simp add: room_def)
  have l: "4 \<le> length (?H (?H (take (nat 2) [1, 2, 0, 0, 0, 0, 9])))"
    by simp
  have "writeChecksum ?H ?s
      = wrote ?s [1, 2, 0, 0, 0, 0, 9] 2 (take 4 (hash256 ?H (take (nat 2) [1, 2, 0, 0, 0, 0, 9])))"
    using writeChecksum_first4 [of ?s "[1, 2, 0, 0, 0, 0, 9]" 2 ?H] r l by blast
  then show ?thesis
    by (simp add: wrote_def splice_def hash256_def)
qed

section \<open>Framing and parsing\<close>

subsection \<open>Chunks\<close>




subsection \<open>One frame\<close>





















end
